theory Spec2Isabelle
  imports Main "HOL-Library.Sublist"
begin

section \<open>Runes, tokens and errors\<close>

text \<open>
  The scanner works on Go runes (Unicode code points) delivered by a buffered reader.
  A rune is modelled by its code point, a natural number; a Go string (a token literal,
  the text handed to the reader) is the list of its runes. \<open>rune_of\<close> writes a rune
  literal such as \<^verbatim>\<open>'x'\<close>; \<open>runes\<close> writes a string literal.
\<close>

type_synonym rune = nat

abbreviation rune_of :: "char \<Rightarrow> rune" where
  "rune_of c \<equiv> of_char c"

definition runes :: "string \<Rightarrow> rune list" where
  "runes cs = map of_char cs"

text \<open>The token categories of scanner.go, in the order of the \<^verbatim>\<open>iota\<close> block.\<close>

datatype Token =
  ILLEGAL | EOF | WS | VARIABLE | CONSTANT | SEMICOLON | ASSIGN | NOTEQUAL
  | PLUS | MINUS | WHILE | DO | END

text \<open>
  Go errors as values. \<open>io_EOF\<close> and \<open>ErrInvalidUnreadRune\<close> are the two errors of
  the buffered reader, \<open>NumError_Syntax\<close> and \<open>NumError_Range\<close> those of
  \<^verbatim>\<open>strconv.Atoi\<close>; the other constructors are \<^verbatim>\<open>errors.New\<close> and
  \<^verbatim>\<open>fmt.Errorf\<close> with the format string (written without the quotation marks
  around \<^verbatim>\<open>%s\<close>) and the formatted arguments.
\<close>

datatype error =
  io_EOF
  | ErrInvalidUnreadRune
  | NumError_Syntax "rune list"
  | NumError_Range "rune list"
  | New string
  | Errorf_err string error
  | Errorf_str string "rune list"
  | Errorf_ints string int int

definition isWhitespace :: "rune \<Rightarrow> bool" where
  "isWhitespace ch \<longleftrightarrow>
     ch = rune_of CHR '' '' \<or> ch = rune_of CHR 0x09 \<or> ch = rune_of CHR 0x0A"

definition isDigit :: "rune \<Rightarrow> bool" where
  "isDigit ch \<longleftrightarrow> rune_of CHR ''0'' \<le> ch \<and> ch \<le> rune_of CHR ''9''"

definition eof :: rune where
  "eof = 0"

section \<open>The scanner\<close>

text \<open>
  \<^verbatim>\<open>Scanner\<close> holds one field, the \<^verbatim>\<open>bufio.Reader\<close> over the input. Of the reader
  the model keeps what \<^verbatim>\<open>ReadRune\<close> and \<^verbatim>\<open>UnreadRune\<close> depend on: the runes not
  yet read (\<open>input\<close>) and the rune that \<^verbatim>\<open>UnreadRune\<close> would put back
  (\<open>lastRune\<close>; \<open>None\<close> when the last operation was not a successful
  \<^verbatim>\<open>ReadRune\<close>, the reader's \<^verbatim>\<open>lastRuneSize = -1\<close>). The input is an in-memory
  text, as \<^verbatim>\<open>strings.NewReader\<close> gives it, so the only read error is \<^verbatim>\<open>io.EOF\<close>.
\<close>

record Scanner =
  input :: "rune list"
  lastRune :: "rune option"

definition NewScanner :: "rune list \<Rightarrow> Scanner" where
  "NewScanner src = \<lparr>input = src, lastRune = None\<rparr>"

text \<open>\<^verbatim>\<open>read\<close>: the next rune, or \<open>eof\<close> together with the reader's error.\<close>

definition read :: "Scanner \<Rightarrow> (rune \<times> error option) \<times> Scanner" where
  "read s =
     (case input s of
        [] \<Rightarrow> ((eof, Some io_EOF), s\<lparr>lastRune := None\<rparr>)
      | ch # cs \<Rightarrow> ((ch, None), \<lparr>input = cs, lastRune = Some ch\<rparr>))"

text \<open>\<^verbatim>\<open>unread\<close>: \<^verbatim>\<open>UnreadRune\<close> fails unless the last operation was a successful read.\<close>

definition unread :: "Scanner \<Rightarrow> error option \<times> Scanner" where
  "unread s =
     (case lastRune s of
        None \<Rightarrow> (Some ErrInvalidUnreadRune, s)
      | Some ch \<Rightarrow> (None, \<lparr>input = ch # input s, lastRune = None\<rparr>))"

type_synonym scanned = "Token \<times> rune list \<times> error option"

definition scanError :: "error \<Rightarrow> scanned" where
  "scanError err = (ILLEGAL, [], Some err)"

text \<open>
  The loop of \<^verbatim>\<open>scanWhitespace\<close>. \<open>buf\<close> is the \<^verbatim>\<open>bytes.Buffer\<close>, whose
  \<^verbatim>\<open>WriteRune\<close> never returns an error. The loop leaves at \<open>eof\<close> (the end of the
  input, or a NUL rune read from it) without unreading, and at any other rune that
  is not whitespace after unreading it. The guard \<^verbatim>\<open>err != nil && ch != eof\<close> is
  the first \<open>case\<close>: the error counts only when the rune is not \<open>eof\<close>.
\<close>

function scanWhitespace_loop :: "Scanner \<Rightarrow> rune list \<Rightarrow> scanned \<times> Scanner" where
  "scanWhitespace_loop s buf =
     (case read s of ((ch, err), s1) \<Rightarrow>
       (case (if ch \<noteq> eof then err else None) of
          Some e \<Rightarrow> (scanError (Errorf_err ''error tokenizing whitespace: %s'' e), s1)
        | None \<Rightarrow>
            if ch = eof then ((WS, buf, None), s1)
            else if \<not> isWhitespace ch then
              (case unread s1 of
                 (Some e, s2) \<Rightarrow>
                   (scanError (Errorf_err ''error tokenizing whitespace: %s'' e), s2)
               | (None, s2) \<Rightarrow> ((WS, buf, None), s2))
            else scanWhitespace_loop s1 (buf @ [ch])))"
  by pat_completeness auto
termination
  by (relation "measure (\<lambda>(s, buf). length (input s))")
     (auto simp: read_def eof_def split: list.splits)

declare scanWhitespace_loop.simps [simp del]

definition scanWhitespace :: "Scanner \<Rightarrow> scanned \<times> Scanner" where
  "scanWhitespace s =
     (case read s of
        ((ch, Some err), s1) \<Rightarrow>
          (scanError (Errorf_err ''error tokenizing whitespace: %s'' err), s1)
      | ((ch, None), s1) \<Rightarrow> scanWhitespace_loop s1 [ch])"

text \<open>The loop of \<^verbatim>\<open>scanVariable\<close>: the same shape, over digits.\<close>

function scanVariable_loop :: "Scanner \<Rightarrow> rune list \<Rightarrow> scanned \<times> Scanner" where
  "scanVariable_loop s buf =
     (case read s of ((ch, err), s1) \<Rightarrow>
       (case (if ch \<noteq> eof then err else None) of
          Some e \<Rightarrow> (scanError (Errorf_err ''error tokenizing whitespace: %s'' e), s1)
        | None \<Rightarrow>
            if ch = eof then ((VARIABLE, buf, None), s1)
            else if \<not> isDigit ch then
              (case unread s1 of
                 (Some e, s2) \<Rightarrow>
                   (scanError (Errorf_err ''error tokenizing digit: %s'' e), s2)
               | (None, s2) \<Rightarrow> ((VARIABLE, buf, None), s2))
            else scanVariable_loop s1 (buf @ [ch])))"
  by pat_completeness auto
termination
  by (relation "measure (\<lambda>(s, buf). length (input s))")
     (auto simp: read_def eof_def split: list.splits)

declare scanVariable_loop.simps [simp del]

definition scanVariable :: "Scanner \<Rightarrow> scanned \<times> Scanner" where
  "scanVariable s =
     (case unread s of
        (Some err, s1) \<Rightarrow> (scanError err, s1)
      | (None, s1) \<Rightarrow>
          (case read s1 of
             ((ch, Some err), s2) \<Rightarrow> (scanError err, s2)
           | ((ch, None), s2) \<Rightarrow>
               if ch \<noteq> rune_of CHR ''x'' then
                 (scanError (New ''variable does not start with x''), s2)
               else scanVariable_loop s2 [ch]))"

text \<open>\<^verbatim>\<open>scanString\<close>: the \<^verbatim>\<open>range\<close> loop over the expected string.\<close>

fun scanString_loop :: "Scanner \<Rightarrow> Token \<Rightarrow> rune list \<Rightarrow> rune list \<Rightarrow> scanned \<times> Scanner" where
  "scanString_loop s expectedToken [] buf = ((expectedToken, buf, None), s)"
| "scanString_loop s expectedToken (strCh # str) buf =
     (case read s of
        ((ch, Some err), s1) \<Rightarrow> (scanError err, s1)
      | ((ch, None), s1) \<Rightarrow>
          if ch \<noteq> strCh then (scanError (Errorf_str ''unexpected string: %s'' buf), s1)
          else scanString_loop s1 expectedToken str (buf @ [ch]))"

definition scanString :: "Scanner \<Rightarrow> Token \<Rightarrow> rune list \<Rightarrow> scanned \<times> Scanner" where
  "scanString s expectedToken str =
     (case unread s of
        (Some err, s1) \<Rightarrow> (scanError err, s1)
      | (None, s1) \<Rightarrow> scanString_loop s1 expectedToken str [])"

text \<open>\<^verbatim>\<open>Scan\<close>: the next token, its literal and the error.\<close>

definition Scan :: "Scanner \<Rightarrow> scanned \<times> Scanner" where
  "Scan s =
     (case read s of
        ((ch, Some err), s1) \<Rightarrow>
          (scanError (Errorf_err ''error reading next character: %s'' err), s1)
      | ((ch, None), s1) \<Rightarrow>
          if isWhitespace ch then
            (case unread s1 of
               (Some err, s2) \<Rightarrow>
                 (scanError (Errorf_err ''error unreading character: %s'' err), s2)
             | (None, s2) \<Rightarrow> scanWhitespace s2)
          else if ch = eof then ((EOF, [], None), s1)
          else if ch = rune_of CHR ''x'' then scanVariable s1
          else if ch = rune_of CHR ''0'' then ((CONSTANT, [ch], None), s1)
          else if ch = rune_of CHR ''1'' then ((CONSTANT, [ch], None), s1)
          else if ch = rune_of CHR '':'' then scanString s1 ASSIGN (runes '':='')
          else if ch = rune_of CHR ''!'' then scanString s1 NOTEQUAL (runes ''!='')
          else if ch = rune_of CHR '';'' then ((SEMICOLON, [ch], None), s1)
          else if ch = rune_of CHR ''+'' then ((PLUS, [ch], None), s1)
          else if ch = rune_of CHR ''-'' then ((MINUS, [ch], None), s1)
          else if ch = rune_of CHR ''W'' then scanString s1 WHILE (runes ''WHILE'')
          else if ch = rune_of CHR ''D'' then scanString s1 DO (runes ''DO'')
          else if ch = rune_of CHR ''E'' then scanString s1 END (runes ''END'')
          else ((ILLEGAL, [ch], None), s1))"

section \<open>The syntax tree\<close>

text \<open>
  The types of parser.go. A Go pointer that may be \<^verbatim>\<open>nil\<close> is an \<open>option\<close>;
  the nodes are never written to after the parser has linked them, so no store is needed.
  \<^verbatim>\<open>int\<close> is the 64-bit Go \<^verbatim>\<open>int\<close>, modelled as an \<open>int\<close> that \<open>Atoi\<close> below
  keeps in range. \<open>new_SeqExpr\<close> and \<open>new_WhileExpr\<close> build the two structs
  (\<^verbatim>\<open>&SeqExpr{p1, p2}\<close>); the selectors carry the names of the Go fields.
\<close>

datatype ExprType = INVALID_EXPR | INCR_EXPR | SEQ_EXPR | WHILE_EXPR

record IncrExpr =
  Variable :: int
  Decrement :: bool

datatype Expr =
  Expr (Type: ExprType) (IncrExpr: "IncrExpr option") (SeqExpr: "SeqExpr option")
    (WhileExpr: "WhileExpr option")
and SeqExpr = new_SeqExpr (P1: "Expr option") (P2: "Expr option")
and WhileExpr = new_WhileExpr (WhileVariable: int) (P: "Expr option")

section \<open>Library functions the parser calls\<close>

text \<open>\<^verbatim>\<open>strings.TrimPrefix\<close>: the string without the prefix, if it starts with it.\<close>

definition TrimPrefix :: "rune list \<Rightarrow> rune list \<Rightarrow> rune list" where
  "TrimPrefix str pre = (if prefix pre str then drop (length pre) str else str)"

text \<open>
  \<^verbatim>\<open>strconv.Atoi\<close> is \<^verbatim>\<open>ParseInt(s, 10, 0)\<close> with \<^verbatim>\<open>IntSize = 64\<close>: an optional
  sign, then \<^verbatim>\<open>ParseUint\<close>'s loop over the digits, which stops with a syntax error at
  the first rune that is not a decimal digit and with a range error as soon as the
  value leaves 64 bits; then the check against the signed range.
\<close>

definition IntSize :: nat where
  "IntSize = 64"

datatype NumErr = ErrSyntax | ErrRange

fun ParseUint_loop :: "rune list \<Rightarrow> nat \<Rightarrow> NumErr + nat" where
  "ParseUint_loop [] n = Inr n"
| "ParseUint_loop (c # cs) n =
     (if \<not> isDigit c then Inl ErrSyntax
      else if n \<ge> (2 ^ 64 - 1) div 10 + 1 then Inl ErrRange
      else let n1 = n * 10 + (c - rune_of CHR ''0'') in
        if n1 > 2 ^ IntSize - 1 then Inl ErrRange else ParseUint_loop cs n1)"

definition ParseUint :: "rune list \<Rightarrow> NumErr + nat" where
  "ParseUint str = (if str = [] then Inl ErrSyntax else ParseUint_loop str 0)"

definition Atoi :: "rune list \<Rightarrow> int \<times> error option" where
  "Atoi s0 =
     (if s0 = [] then (0, Some (NumError_Syntax s0))
      else
        let neg = (hd s0 = rune_of CHR ''-'');
            str = (if hd s0 = rune_of CHR ''+'' \<or> hd s0 = rune_of CHR ''-'' then tl s0 else s0);
            cutoff = (2::nat) ^ (IntSize - 1)
        in case ParseUint str of
             Inl ErrSyntax \<Rightarrow> (0, Some (NumError_Syntax s0))
           | Inl ErrRange \<Rightarrow>
               (if neg then - int cutoff else int cutoff - 1, Some (NumError_Range s0))
           | Inr un \<Rightarrow>
               if \<not> neg \<and> un \<ge> cutoff then (int cutoff - 1, Some (NumError_Range s0))
               else if neg \<and> un > cutoff then (- int cutoff, Some (NumError_Range s0))
               else (if neg then - int un else int un, None))"

section \<open>The parser\<close>

text \<open>
  \<^verbatim>\<open>Parser\<close>: the scanner \<^verbatim>\<open>s\<close> and the one-token lookahead buffer
  \<^verbatim>\<open>buf.tok\<close>, \<^verbatim>\<open>buf.lit\<close>, \<^verbatim>\<open>buf.n\<close>.
\<close>

record Parser =
  scanner :: Scanner
  buf_tok :: Token
  buf_lit :: "rune list"
  buf_n :: int

definition NewParser :: "rune list \<Rightarrow> Parser" where
  "NewParser src = \<lparr>scanner = NewScanner src, buf_tok = ILLEGAL, buf_lit = [], buf_n = 0\<rparr>"

definition scan :: "Parser \<Rightarrow> scanned \<times> Parser" where
  "scan p =
     (if buf_n p \<noteq> 0 then ((buf_tok p, buf_lit p, None), p\<lparr>buf_n := 0\<rparr>)
      else case Scan (scanner p) of
        ((tok, lit, err), s') \<Rightarrow>
          ((tok, lit, err), p\<lparr>scanner := s', buf_tok := tok, buf_lit := lit\<rparr>))"

definition unscan :: "Parser \<Rightarrow> Parser" where
  "unscan p = p\<lparr>buf_n := 1\<rparr>"

definition scanIgnoreWhitespace :: "Parser \<Rightarrow> scanned \<times> Parser" where
  "scanIgnoreWhitespace p =
     (case scan p of
        ((tok, lit, err), p1) \<Rightarrow>
          if err \<noteq> None then ((tok, lit, err), p1)
          else if tok = WS then scan p1
          else ((tok, lit, err), p1))"

type_synonym 'a parsed = "('a option \<times> error option) \<times> Parser"

text \<open>\<^verbatim>\<open>parseIncr\<close>: every early return of the source is a branch.\<close>

definition parseIncr :: "Parser \<Rightarrow> IncrExpr parsed" where
  "parseIncr p =
     (case scanIgnoreWhitespace p of ((tok, lit, err), p1) \<Rightarrow>
     (case err of
        Some e \<Rightarrow> ((None, Some (Errorf_err ''error parsing left side variable: %s'' e)), p1)
      | None \<Rightarrow>
     (if tok \<noteq> VARIABLE then
        ((None, Some (New ''initial token of increment has to be a variable'')), p1)
      else
     (case Atoi (TrimPrefix lit (runes ''x'')) of
        (firstVarNum, Some e) \<Rightarrow>
          ((None, Some (Errorf_err ''error parsing variable number: %s'' e)), p1)
      | (firstVarNum, None) \<Rightarrow>
     (case scanIgnoreWhitespace p1 of ((tok, lit, err), p2) \<Rightarrow>
     (case err of
        Some e \<Rightarrow> ((None, Some (Errorf_err ''error parsing equal sign: %s'' e)), p2)
      | None \<Rightarrow>
     (if tok \<noteq> ASSIGN then
        ((None, Some (New ''expected assignment operator after variable'')), p2)
      else
     (case scanIgnoreWhitespace p2 of ((tok, lit, err), p3) \<Rightarrow>
     (case err of
        Some e \<Rightarrow> ((None, Some (Errorf_err ''error parsing left side variable: %s'' e)), p3)
      | None \<Rightarrow>
     (if tok \<noteq> VARIABLE then
        ((None, Some (New ''initial token of increment has to be a variable'')), p3)
      else
     (case Atoi (TrimPrefix lit (runes ''x'')) of
        (secondVarNum, Some e) \<Rightarrow>
          ((None, Some (Errorf_err ''error parsing variable number: %s'' e)), p3)
      | (secondVarNum, None) \<Rightarrow>
     (if firstVarNum \<noteq> secondVarNum then
        ((None, Some (Errorf_ints
           ''second variable index %d has to match the first one which is %d''
           firstVarNum secondVarNum)), p3)
      else
     (case scanIgnoreWhitespace p3 of ((tok, lit, err), p4) \<Rightarrow>
     (case err of
        Some e \<Rightarrow> ((None, Some (Errorf_err ''error parsing increment/decrement: %s'' e)), p4)
      | None \<Rightarrow>
     (if tok \<noteq> PLUS \<and> tok \<noteq> MINUS then
        ((None, Some (Errorf_str ''token %s has to be - or + sign'' lit)), p4)
      else
     (case scanIgnoreWhitespace p4 of ((tok', lit, err), p5) \<Rightarrow>
     (case err of
        Some e \<Rightarrow>
          ((None, Some (Errorf_err
             ''error parsing number after increment/decrement: %s'' e)), p5)
      | None \<Rightarrow>
     (if tok' \<noteq> CONSTANT \<or> lit \<noteq> runes ''1'' then
        ((None, Some (Errorf_str ''there has to follow a 1 after +/-, got %s'' lit)), p5)
      else
        ((Some \<lparr>Variable = firstVarNum, Decrement = (tok = MINUS)\<rparr>, None),
         p5)))))))))))))))))))"

subsection \<open>Parse\<close>

text \<open>
  \<^verbatim>\<open>Parse\<close>. The locals \<^verbatim>\<open>ex1\<close> and \<^verbatim>\<open>expr\<close> after the base case are the second
  and third component of the tuple that the \<open>if tok = VARIABLE\<close> yields (the first is
  the error of the early return, the last the parser). The recursive call follows a
  semicolon read from the input, so the input is shorter there; the termination proof
  comes after the lemmas on what a scan consumes.
\<close>

function Parse :: "Parser \<Rightarrow> Expr parsed" where
  "Parse p =
     (case scanIgnoreWhitespace p of ((tok, lit, err), p1) \<Rightarrow>
     (case err of
        Some e \<Rightarrow> ((None, Some (Errorf_err ''error tokenizing: %s'' e)), p1)
      | None \<Rightarrow>
     (case (if tok = VARIABLE then
              (case parseIncr (unscan p1) of
                 ((incExpr, Some e), p2) \<Rightarrow> (Some e, Expr INVALID_EXPR None None None, None, p2)
               | ((incExpr, None), p2) \<Rightarrow>
                   (None, Expr INCR_EXPR incExpr None None,
                    Some (Expr INCR_EXPR incExpr None None), p2))
            else (None, Expr INVALID_EXPR None None None, None, p1)) of
        (Some e, ex1, expr, p2) \<Rightarrow> ((None, Some e), p2)
      | (None, ex1, expr, p2) \<Rightarrow>
     (case scanIgnoreWhitespace p2 of ((tok, lit, err), p3) \<Rightarrow>
     (if tok = ILLEGAL \<or> tok = EOF then ((expr, None), p3)
      else
     (case err of
        Some e \<Rightarrow> ((None, Some (Errorf_err ''error tokenizing after ws: %s'' e)), p3)
      | None \<Rightarrow>
     (if tok = SEMICOLON then
        (case Parse p3 of
           ((ex2, Some e), p4) \<Rightarrow>
             ((None, Some (Errorf_err ''no valid expression after semicolon: %s'' e)), p4)
         | ((ex2, None), p4) \<Rightarrow>
             ((Some (Expr SEQ_EXPR None (Some (new_SeqExpr (Some ex1) ex2)) None), None), p4))
      else ((expr, None), p3))))))))"
  by pat_completeness auto

section \<open>The interpreter\<close>

text \<open>
  Modelled from the spec: the interpreter (section 4.3 of the specification) is not
  among the source files, whose Todo lists it as still to be written. \<open>Statement\<close> is
  the closed sum type of section 3, with its three variants.
\<close>

datatype Statement =
  Increment nat bool
  | Sequence Statement Statement
  | While nat Statement

text \<open>
  Modelled from the spec: the environment, a mapping from variable index to value in
  which an unset variable reads as 0. The values are integers, so that the saturation
  \<open>max (env[v] - 1) 0\<close> is written out and not hidden in the subtraction of naturals.
\<close>

type_synonym Environment = "nat \<rightharpoonup> int"

definition lookup :: "Environment \<Rightarrow> nat \<Rightarrow> int" where
  "lookup env v = (case env v of None \<Rightarrow> 0 | Some x \<Rightarrow> x)"

text \<open>
  Modelled from the spec: \<open>run\<close>, the three evaluation rules of section 4.3. A loop that
  does not end is the value \<open>None\<close>.
\<close>

partial_function (option) run :: "Statement \<Rightarrow> Environment \<Rightarrow> Environment option" where
  "run stmt env =
     (case stmt of
        Increment v dec \<Rightarrow>
          Some (env(v \<mapsto> (if \<not> dec then lookup env v + 1 else max (lookup env v - 1) 0)))
      | Sequence p1 p2 \<Rightarrow> Option.bind (run p1 env) (run p2)
      | While v body \<Rightarrow>
          if lookup env v \<noteq> 0 then Option.bind (run body env) (run (While v body))
          else Some env)"

section \<open>Definitions for the proofs and the statements\<close>

subsection \<open>The reads of parseIncr, one at a time\<close>

text \<open>
  \<open>parseIncr\<close> is one long chain of reads and early returns. For the proofs the chain is
  cut after each read: \<open>incr_assign\<close>, \<open>incr_right\<close>, \<open>incr_sign\<close> and
  \<open>incr_constant\<close> are the rest of the function after its first, second, third and fourth
  token, and \<open>parseIncr_stages\<close> below shows (by unfolding alone) that \<open>parseIncr\<close> is
  their composition.
\<close>

definition incr_constant :: "int \<Rightarrow> bool \<Rightarrow> Parser \<Rightarrow> IncrExpr parsed" where
  "incr_constant firstVarNum decrement p4 =
     (case scanIgnoreWhitespace p4 of ((tok, lit, err), p5) \<Rightarrow>
     (case err of
        Some e \<Rightarrow>
          ((None, Some (Errorf_err
             ''error parsing number after increment/decrement: %s'' e)), p5)
      | None \<Rightarrow>
     (if tok \<noteq> CONSTANT \<or> lit \<noteq> runes ''1'' then
        ((None, Some (Errorf_str ''there has to follow a 1 after +/-, got %s'' lit)), p5)
      else
        ((Some \<lparr>Variable = firstVarNum, Decrement = decrement\<rparr>, None), p5))))"

definition incr_sign :: "int \<Rightarrow> Parser \<Rightarrow> IncrExpr parsed" where
  "incr_sign firstVarNum p3 =
     (case scanIgnoreWhitespace p3 of ((tok, lit, err), p4) \<Rightarrow>
     (case err of
        Some e \<Rightarrow> ((None, Some (Errorf_err ''error parsing increment/decrement: %s'' e)), p4)
      | None \<Rightarrow>
     (if tok \<noteq> PLUS \<and> tok \<noteq> MINUS then
        ((None, Some (Errorf_str ''token %s has to be - or + sign'' lit)), p4)
      else incr_constant firstVarNum (tok = MINUS) p4)))"

definition incr_right :: "int \<Rightarrow> Parser \<Rightarrow> IncrExpr parsed" where
  "incr_right firstVarNum p2 =
     (case scanIgnoreWhitespace p2 of ((tok, lit, err), p3) \<Rightarrow>
     (case err of
        Some e \<Rightarrow> ((None, Some (Errorf_err ''error parsing left side variable: %s'' e)), p3)
      | None \<Rightarrow>
     (if tok \<noteq> VARIABLE then
        ((None, Some (New ''initial token of increment has to be a variable'')), p3)
      else
     (case Atoi (TrimPrefix lit (runes ''x'')) of
        (secondVarNum, Some e) \<Rightarrow>
          ((None, Some (Errorf_err ''error parsing variable number: %s'' e)), p3)
      | (secondVarNum, None) \<Rightarrow>
     (if firstVarNum \<noteq> secondVarNum then
        ((None, Some (Errorf_ints
           ''second variable index %d has to match the first one which is %d''
           firstVarNum secondVarNum)), p3)
      else incr_sign firstVarNum p3)))))"

definition incr_assign :: "int \<Rightarrow> Parser \<Rightarrow> IncrExpr parsed" where
  "incr_assign firstVarNum p1 =
     (case scanIgnoreWhitespace p1 of ((tok, lit, err), p2) \<Rightarrow>
     (case err of
        Some e \<Rightarrow> ((None, Some (Errorf_err ''error parsing equal sign: %s'' e)), p2)
      | None \<Rightarrow>
     (if tok \<noteq> ASSIGN then
        ((None, Some (New ''expected assignment operator after variable'')), p2)
      else incr_right firstVarNum p2)))"

subsection \<open>What has been consumed\<close>

text \<open>
  \<open>consumed p q\<close>: from \<open>p\<close> to \<open>q\<close> the lookahead buffer has been emptied and the
  input has not grown.
\<close>

definition consumed :: "Parser \<Rightarrow> Parser \<Rightarrow> bool" where
  "consumed p q \<longleftrightarrow>
     buf_n q = 0 \<and> length (input (scanner q)) \<le> length (input (scanner p))"

subsection \<open>An error comes with ILLEGAL\<close>


subsection \<open>The source text of an increment\<close>

text \<open>
  \<open>decimal n\<close> is the decimal numeral of \<open>n\<close> without leading zeros (what
  \<^verbatim>\<open>strconv.Itoa\<close> prints), \<open>incr_src n dec\<close> the text \<^verbatim>\<open>x{n} := x{n} + 1\<close> (with
  \<^verbatim>\<open>-\<close> when \<open>dec\<close>), and \<open>incr_node n dec\<close> the tree expected for it.
\<close>

fun decimal :: "nat \<Rightarrow> rune list" where
  "decimal n =
     (if n < 10 then [rune_of CHR ''0'' + n]
      else decimal (n div 10) @ [rune_of CHR ''0'' + n mod 10])"

declare decimal.simps [simp del]

definition incr_src :: "nat \<Rightarrow> bool \<Rightarrow> rune list" where
  "incr_src n dec =
     runes ''x'' @ decimal n @ runes '' := x'' @ decimal n @
     (if dec then runes '' - 1'' else runes '' + 1'')"

definition incr_node :: "nat \<Rightarrow> bool \<Rightarrow> Expr" where
  "incr_node n dec = Expr INCR_EXPR (Some \<lparr>Variable = int n, Decrement = dec\<rparr>) None None"

subsection \<open>The tokens of more than one rune\<close>

text \<open>The tokens of more than one rune, with the literal \<open>Scan\<close> passes to \<open>scanString\<close>.\<close>

definition multi_rune_tokens :: "(Token \<times> rune list) list" where
  "multi_rune_tokens =
     [(ASSIGN, runes '':=''), (NOTEQUAL, runes ''!=''), (WHILE, runes ''WHILE''),
      (DO, runes ''DO''), (END, runes ''END'')]"

subsection \<open>The two indices of an increment\<close>

text \<open>
  \<open>digits_val ds n\<close> is the number that the digits \<open>ds\<close> denote after the value \<open>n\<close>
  read so far: \<open>digits_val ds 0\<close> is the number written \<open>ds\<close>, of any size.
\<close>

definition digits_val :: "rune list \<Rightarrow> nat \<Rightarrow> nat" where
  "digits_val ds n = foldl (\<lambda>a c. a * 10 + (c - rune_of CHR ''0'')) n ds"

text \<open>
  The index of a variable literal: the integer written after the \<^verbatim>\<open>x\<close>, of any size,
  whether it fits a Go \<^verbatim>\<open>int\<close> or not. For a literal of the scanner, \<^verbatim>\<open>x\<close> and
  digits, it is the number the digits denote (leading zeros allowed) and undefined when
  there is no digit; the sign is read only because \<^verbatim>\<open>strconv.Atoi\<close> would read one.
\<close>

definition var_index :: "rune list \<Rightarrow> int option" where
  "var_index lit =
     (let s = TrimPrefix lit (runes ''x'');
          neg = (s \<noteq> [] \<and> hd s = rune_of CHR ''-'');
          ds = (if s \<noteq> [] \<and> (hd s = rune_of CHR ''+'' \<or> hd s = rune_of CHR ''-'')
                then tl s else s)
      in if ds \<noteq> [] \<and> list_all isDigit ds
         then Some (if neg then - int (digits_val ds 0) else int (digits_val ds 0))
         else None)"

text \<open>
  The indices on the two sides of \<open>:=\<close> in the tokens ahead of a parser, read with the
  parser's own \<open>scanIgnoreWhitespace\<close>: defined when the first and the third token are
  variables and the second is \<open>:=\<close>.
\<close>

definition incr_indices :: "Parser \<Rightarrow> (int option \<times> int option) option" where
  "incr_indices p =
     (case scanIgnoreWhitespace p of ((tok1, lit1, err1), p1) \<Rightarrow>
     (case scanIgnoreWhitespace p1 of ((tok2, lit2, err2), p2) \<Rightarrow>
     (case scanIgnoreWhitespace p2 of ((tok3, lit3, err3), p3) \<Rightarrow>
        if tok1 = VARIABLE \<and> err1 = None \<and> tok2 = ASSIGN \<and> err2 = None \<and>
           tok3 = VARIABLE \<and> err3 = None
        then Some (var_index lit1, var_index lit3) else None)))"

text \<open>
  The increment of the first statement of a tree: the root, when it is an increment
  node, or the first child of a sequence node.
\<close>

definition first_increment :: "Expr \<Rightarrow> IncrExpr option" where
  "first_increment ex =
     (case Type ex of
        INCR_EXPR \<Rightarrow> IncrExpr ex
      | SEQ_EXPR \<Rightarrow>
          (case SeqExpr ex of
             None \<Rightarrow> None
           | Some sq \<Rightarrow>
               (case P1 sq of
                  None \<Rightarrow> None
                | Some ex1 \<Rightarrow> if Type ex1 = INCR_EXPR then IncrExpr ex1 else None))
      | _ \<Rightarrow> None)"

section \<open>What a scan consumes\<close>

text \<open>
  Every call of \<open>Scan\<close> on input that is not exhausted takes at least one rune from it,
  and none gives a rune back that it has not read itself. The parser's termination rests
  on this.
\<close>

lemma read_Nil: "input s = [] \<Longrightarrow> read s = ((eof, Some io_EOF), s\<lparr>lastRune := None\<rparr>)"
  by (simp add: read_def)

lemma read_Cons: "input s = ch # cs \<Longrightarrow> read s = ((ch, None), \<lparr>input = cs, lastRune = Some ch\<rparr>)"
  by (simp add: read_def)

lemma unread_Some: "unread \<lparr>input = cs, lastRune = Some ch\<rparr> = (None, \<lparr>input = ch # cs, lastRune = None\<rparr>)"
  by (simp add: unread_def)

lemma scanWhitespace_loop_le:
  "length (input (snd (scanWhitespace_loop s buf))) \<le> length (input s)"
proof (induction s buf rule: scanWhitespace_loop.induct)
  case (1 s buf)
  show ?case
  proof (cases "input s")
    case Nil
    then show ?thesis
      by (subst scanWhitespace_loop.simps) (simp add: read_Nil eof_def)
  next
    case (Cons ch cs)
    show ?thesis
    proof (cases "ch \<noteq> eof \<and> isWhitespace ch")
      case True
      with Cons 1[of "(ch, None)" "\<lparr>input = cs, lastRune = Some ch\<rparr>" ch None]
      show ?thesis
        by (subst scanWhitespace_loop.simps) (simp add: read_Cons)
    next
      case False
      with Cons show ?thesis
        by (subst scanWhitespace_loop.simps) (auto simp add: read_Cons unread_Some)
    qed
  qed
qed

lemma scanVariable_loop_le:
  "length (input (snd (scanVariable_loop s buf))) \<le> length (input s)"
proof (induction s buf rule: scanVariable_loop.induct)
  case (1 s buf)
  show ?case
  proof (cases "input s")
    case Nil
    then show ?thesis
      by (subst scanVariable_loop.simps) (simp add: read_Nil eof_def)
  next
    case (Cons ch cs)
    show ?thesis
    proof (cases "ch \<noteq> eof \<and> isDigit ch")
      case True
      with Cons 1[of "(ch, None)" "\<lparr>input = cs, lastRune = Some ch\<rparr>" ch None]
      show ?thesis
        by (subst scanVariable_loop.simps) (simp add: read_Cons)
    next
      case False
      with Cons show ?thesis
        by (subst scanVariable_loop.simps) (auto simp add: read_Cons unread_Some)
    qed
  qed
qed

lemma scanString_loop_le:
  "length (input (snd (scanString_loop s t str buf))) \<le> length (input s)"
proof (induction str arbitrary: s buf)
  case Nil
  show ?case by simp
next
  case (Cons c str)
  show ?case
  proof (cases "input s")
    case Nil
    then show ?thesis by (simp add: read_Nil)
  next
    case (Cons ch cs)
    with Cons.IH[of "\<lparr>input = cs, lastRune = Some ch\<rparr>" "buf @ [ch]"]
    show ?thesis by (auto simp add: read_Cons)
  qed
qed

lemma Scan_Nil:
  "input s = [] \<Longrightarrow>
   Scan s = (scanError (Errorf_err ''error reading next character: %s'' io_EOF),
             s\<lparr>lastRune := None\<rparr>)"
  by (simp add: Scan_def read_Nil)

lemma Scan_Cons_le:
  assumes "input s = ch # cs"
  shows "length (input (snd (Scan s))) \<le> length cs"
proof -
  let ?s1 = "\<lparr>input = cs, lastRune = Some ch\<rparr>"
  let ?s0 = "\<lparr>input = ch # cs, lastRune = None\<rparr>"
  have w: "length (input (snd (scanWhitespace ?s0))) \<le> length cs"
    using scanWhitespace_loop_le[of ?s1 "[ch]"] by (simp add: scanWhitespace_def read_Cons)
  have v: "length (input (snd (scanVariable ?s1))) \<le> length cs"
    using scanVariable_loop_le[of ?s1 "[ch]"]
    by (auto simp add: scanVariable_def unread_Some read_Cons)
  have k: "length (input (snd (scanString ?s1 t (ch # str)))) \<le> length cs" for t str
    using scanString_loop_le[of ?s1 t str "[ch]"]
    by (simp add: scanString_def unread_Some read_Cons)
  show ?thesis
    using assms w v k[of _ "[]"] k[of _ "[_]"] k[of _ "[_, _]"] k[of _ "[_, _, _, _]"]
    by (auto simp add: Scan_def read_Cons unread_Some runes_def)
qed

lemma Scan_le: "length (input (snd (Scan s))) \<le> length (input s)"
  using Scan_Nil[of s] Scan_Cons_le[of s] by (cases "input s") auto

lemma Scan_lt:
  assumes "fst (fst (Scan s)) \<noteq> ILLEGAL"
  shows "length (input (snd (Scan s))) < length (input s)"
  using assms Scan_Nil[of s] Scan_Cons_le[of s]
  by (cases "input s") (auto simp: scanError_def)

section \<open>What the parser consumes\<close>

lemma parseIncr_stages:
  "parseIncr p =
     (case scanIgnoreWhitespace p of ((tok, lit, err), p1) \<Rightarrow>
     (case err of
        Some e \<Rightarrow> ((None, Some (Errorf_err ''error parsing left side variable: %s'' e)), p1)
      | None \<Rightarrow>
     (if tok \<noteq> VARIABLE then
        ((None, Some (New ''initial token of increment has to be a variable'')), p1)
      else
     (case Atoi (TrimPrefix lit (runes ''x'')) of
        (firstVarNum, Some e) \<Rightarrow>
          ((None, Some (Errorf_err ''error parsing variable number: %s'' e)), p1)
      | (firstVarNum, None) \<Rightarrow> incr_assign firstVarNum p1))))"
  unfolding parseIncr_def incr_assign_def incr_right_def incr_sign_def incr_constant_def
  by (rule refl)

lemma consumed_trans: "consumed p q \<Longrightarrow> consumed q r \<Longrightarrow> consumed p r"
  by (simp add: consumed_def)

lemma scan_consumed: "consumed p (snd (scan p))"
  using Scan_le[of "scanner p"]
  by (auto simp add: consumed_def scan_def split: prod.splits)

lemma scan_lt:
  assumes "buf_n p = 0" "fst (fst (scan p)) \<noteq> ILLEGAL"
  shows "length (input (scanner (snd (scan p)))) < length (input (scanner p))"
  using assms Scan_lt[of "scanner p"]
  by (auto simp add: scan_def split: prod.splits)

lemma scanIgnoreWhitespace_consumed: "consumed p (snd (scanIgnoreWhitespace p))"
  using scan_consumed[of p] scan_consumed[of "snd (scan p)"]
  by (auto simp add: scanIgnoreWhitespace_def split: prod.splits intro: consumed_trans)

lemma scanIgnoreWhitespace_lt:
  assumes "buf_n p = 0" "fst (fst (scanIgnoreWhitespace p)) \<noteq> ILLEGAL"
  shows "length (input (scanner (snd (scanIgnoreWhitespace p)))) < length (input (scanner p))"
proof -
  obtain tok lit err p1 where s1: "scan p = ((tok, lit, err), p1)"
    by (metis surj_pair)
  show ?thesis
  proof (cases "err = None \<and> tok = WS")
    case True
    have "length (input (scanner p1)) < length (input (scanner p))"
      using scan_lt[of p] assms(1) s1 True by simp
    moreover have "length (input (scanner (snd (scan p1)))) \<le> length (input (scanner p1))"
      using scan_consumed[of p1] by (simp add: consumed_def)
    ultimately show ?thesis
      using s1 True by (simp add: scanIgnoreWhitespace_def)
  next
    case False
    then show ?thesis
      using scan_lt[of p] assms s1 by (auto simp add: scanIgnoreWhitespace_def)
  qed
qed

lemma consumed_refl_step:
  "consumed p q \<Longrightarrow> consumed p (snd (scanIgnoreWhitespace q))"
  using scanIgnoreWhitespace_consumed[of q] by (auto intro: consumed_trans)

lemma incr_constant_consumed: "consumed p q \<Longrightarrow> consumed p (snd (incr_constant v d q))"
  using consumed_refl_step[of p q]
  by (auto simp add: incr_constant_def split: prod.split option.split)

lemma incr_sign_consumed: "consumed p q \<Longrightarrow> consumed p (snd (incr_sign v q))"
  using consumed_refl_step[of p q]
  by (auto simp add: incr_sign_def incr_constant_consumed split: prod.split option.split)

lemma incr_right_consumed: "consumed p q \<Longrightarrow> consumed p (snd (incr_right v q))"
  using consumed_refl_step[of p q]
  by (auto simp add: incr_right_def incr_sign_consumed split: prod.split option.split)

lemma incr_assign_consumed: "consumed p q \<Longrightarrow> consumed p (snd (incr_assign v q))"
  using consumed_refl_step[of p q]
  by (auto simp add: incr_assign_def incr_right_consumed split: prod.split option.split)

lemma parseIncr_consumed: "consumed p (snd (parseIncr p))"
  using scanIgnoreWhitespace_consumed[of p]
  by (auto simp add: parseIncr_stages incr_assign_consumed split: prod.split option.split)

section \<open>Termination of Parse\<close>

termination Parse
proof (relation "measure (\<lambda>p. length (input (scanner p)))", goal_cases)
  case 1
  show ?case by simp
next
  case (2 p x y xa ya xb yb xc yaa xd yc xe yd xf ye xg yf xh yg)
  have c1: "consumed p y"
    using scanIgnoreWhitespace_consumed[of p] 2(1)[symmetric] by simp
  have c2: "consumed y yd"
  proof (cases "xa = VARIABLE")
    case True
    then have "yd = snd (parseIncr (unscan y))"
      using 2(5,7,8) by (auto split: prod.splits option.splits)
    then show ?thesis
      using parseIncr_consumed[of "unscan y"] by (simp add: consumed_def unscan_def)
  next
    case False
    then have "yd = y"
      using 2(5,7,8) by auto
    then show ?thesis
      using c1 by (simp add: consumed_def)
  qed
  have "fst (fst (scanIgnoreWhitespace yd)) = SEMICOLON"
    using 2(9,10,14) by (metis fst_conv)
  then have "length (input (scanner ye)) < length (input (scanner yd))"
    using scanIgnoreWhitespace_lt[of yd] c2 2(9)[symmetric] by (simp add: consumed_def)
  then show ?case
    using c1 c2 by (simp add: consumed_def)
qed

declare Parse.simps [simp del]

section \<open>Evaluating the scanner\<close>

text \<open>
  The two loops on an input whose first rune is known, as rewrite rules that evaluate a
  scan of a concrete text.
\<close>

lemma scanWhitespace_loop_Nil:
  "scanWhitespace_loop \<lparr>input = [], lastRune = l\<rparr> buf =
     ((WS, buf, None), \<lparr>input = [], lastRune = None\<rparr>)"
  by (subst scanWhitespace_loop.simps) (simp add: read_def eof_def)

lemma scanWhitespace_loop_Cons:
  "scanWhitespace_loop \<lparr>input = c # cs, lastRune = l\<rparr> buf =
     (if c = eof then ((WS, buf, None), \<lparr>input = cs, lastRune = Some c\<rparr>)
      else if \<not> isWhitespace c then ((WS, buf, None), \<lparr>input = c # cs, lastRune = None\<rparr>)
      else scanWhitespace_loop \<lparr>input = cs, lastRune = Some c\<rparr> (buf @ [c]))"
  by (subst scanWhitespace_loop.simps) (simp add: read_def unread_def)

lemma scanVariable_loop_Nil:
  "scanVariable_loop \<lparr>input = [], lastRune = l\<rparr> buf =
     ((VARIABLE, buf, None), \<lparr>input = [], lastRune = None\<rparr>)"
  by (subst scanVariable_loop.simps) (simp add: read_def eof_def)

lemma scanVariable_loop_Cons:
  "scanVariable_loop \<lparr>input = c # cs, lastRune = l\<rparr> buf =
     (if c = eof then ((VARIABLE, buf, None), \<lparr>input = cs, lastRune = Some c\<rparr>)
      else if \<not> isDigit c then ((VARIABLE, buf, None), \<lparr>input = c # cs, lastRune = None\<rparr>)
      else scanVariable_loop \<lparr>input = cs, lastRune = Some c\<rparr> (buf @ [c]))"
  by (subst scanVariable_loop.simps) (simp add: read_def unread_def)

lemmas scan_eval =
  NewParser_def NewScanner_def runes_def scan_def unscan_def scanIgnoreWhitespace_def
  Scan_def read_def unread_def scanError_def scanWhitespace_def scanVariable_def
  scanString_def scanWhitespace_loop_Nil scanWhitespace_loop_Cons
  scanVariable_loop_Nil scanVariable_loop_Cons isWhitespace_def isDigit_def eof_def

lemmas parse_eval =
  scan_eval parseIncr_stages incr_assign_def incr_right_def incr_sign_def incr_constant_def
  Atoi_def ParseUint_def TrimPrefix_def IntSize_def

section \<open>A scan depends on the input alone\<close>






section \<open>Runs of whitespace and of digits\<close>

lemma scanWhitespace_loop_run:
  assumes "list_all isWhitespace ws" and "rest = [] \<or> \<not> isWhitespace (hd rest)"
  shows "scanWhitespace_loop \<lparr>input = ws @ rest, lastRune = l\<rparr> buf =
           ((WS, buf @ ws, None),
            (case rest of
               [] \<Rightarrow> \<lparr>input = [], lastRune = None\<rparr>
             | c # cs \<Rightarrow>
                 if c = eof then \<lparr>input = cs, lastRune = Some c\<rparr>
                 else \<lparr>input = c # cs, lastRune = None\<rparr>))"
  using assms
proof (induction ws arbitrary: l buf)
  case Nil
  then show ?case
    by (cases rest) (auto simp add: scanWhitespace_loop_Nil scanWhitespace_loop_Cons)
next
  case (Cons w ws)
  then have "w \<noteq> eof" "isWhitespace w"
    by (auto simp add: isWhitespace_def eof_def)
  with Cons show ?case
    by (simp add: scanWhitespace_loop_Cons)
qed

lemma scanVariable_loop_run:
  assumes "list_all isDigit ds" and "\<not> isDigit c" and "c \<noteq> eof"
  shows "scanVariable_loop \<lparr>input = ds @ c # cs, lastRune = l\<rparr> buf =
           ((VARIABLE, buf @ ds, None), \<lparr>input = c # cs, lastRune = None\<rparr>)"
  using assms
proof (induction ds arbitrary: l buf)
  case Nil
  then show ?case by (simp add: scanVariable_loop_Cons)
next
  case (Cons d ds)
  then have "d \<noteq> eof" "isDigit d"
    by (auto simp add: isDigit_def eof_def)
  with Cons show ?case
    by (simp add: scanVariable_loop_Cons)
qed

section \<open>The source text of an increment, scanned and parsed\<close>

lemma decimal_digits: "list_all isDigit (decimal n)"
proof (induction n rule: decimal.induct)
  case (1 n)
  have "n mod 10 < 10" by simp
  then have "isDigit (48 + n mod 10)" by (simp add: isDigit_def)
  moreover have "n < 10 \<Longrightarrow> isDigit (48 + n)" by (simp add: isDigit_def)
  ultimately show ?case
    using 1 by (subst decimal.simps) simp
qed

lemma decimal_not_Nil: "decimal n \<noteq> []"
  by (subst decimal.simps) simp

lemma ParseUint_loop_append:
  "ParseUint_loop (xs @ ys) acc =
     (case ParseUint_loop xs acc of Inl e \<Rightarrow> Inl e | Inr m \<Rightarrow> ParseUint_loop ys m)"
  by (induction xs arbitrary: acc) (simp_all add: Let_def)

lemma ParseUint_loop_decimal:
  "n < 2 ^ 64 \<Longrightarrow> ParseUint_loop (decimal n) 0 = Inr n"
proof (induction n rule: decimal.induct)
  case (1 n)
  show ?case
  proof (cases "n < 10")
    case True
    then show ?thesis
      using "1.prems" by (subst decimal.simps) (simp add: isDigit_def IntSize_def)
  next
    case False
    have d: "isDigit (48 + n mod 10)"
      by (simp add: isDigit_def)
    have "n div 10 < 2 ^ 64" using "1.prems" by simp
    then have ih: "ParseUint_loop (decimal (n div 10)) 0 = Inr (n div 10)"
      using 1 False by simp
    have small: "\<not> (n div 10 \<ge> (2 ^ 64 - 1) div 10 + 1)"
      using "1.prems" by simp
    have "n div 10 * 10 + n mod 10 = n" by simp
    then show ?thesis
      using False ih d small "1.prems"
      by (subst decimal.simps) (simp add: ParseUint_loop_append Let_def IntSize_def)
  qed
qed

lemma digits_val_Nil: "digits_val [] n = n"
  by (simp add: digits_val_def)

lemma digits_val_Cons: "digits_val (c # cs) n = digits_val cs (n * 10 + (c - 48))"
  by (simp add: digits_val_def)

lemma digits_val_append: "digits_val (xs @ ys) n = digits_val ys (digits_val xs n)"
  by (simp add: digits_val_def)

lemma digits_val_ge: "n \<le> digits_val ds n"
proof (induction ds arbitrary: n)
  case Nil
  show ?case by (simp add: digits_val_Nil)
next
  case (Cons c cs)
  have "n \<le> n * 10 + (c - 48)" by simp
  also have "\<dots> \<le> digits_val cs (n * 10 + (c - 48))" by (rule Cons.IH)
  finally show ?case by (simp add: digits_val_Cons)
qed

lemma ParseUint_loop_Cons_numeral:
  "ParseUint_loop (c # cs) n =
     (if \<not> isDigit c then Inl ErrSyntax
      else if n \<ge> 1844674407370955162 then Inl ErrRange
      else if n * 10 + (c - 48) > 18446744073709551615 then Inl ErrRange
      else ParseUint_loop cs (n * 10 + (c - 48)))"
  by (simp add: Let_def IntSize_def)

lemma ParseUint_loop_digits:
  assumes "list_all isDigit ds" and "n \<le> 18446744073709551615"
  shows "ParseUint_loop ds n =
           (if digits_val ds n \<le> 18446744073709551615 then Inr (digits_val ds n)
            else Inl ErrRange)"
  using assms
proof (induction ds arbitrary: n)
  case Nil
  then show ?case
    by (simp add: digits_val_Nil)
next
  case (Cons c cs)
  define d where "d = c - 48"
  have c: "isDigit c" and cs: "list_all isDigit cs"
    using Cons.prems(1) by simp_all
  have step: "ParseUint_loop (c # cs) n =
     (if n \<ge> 1844674407370955162 then Inl ErrRange
      else if n * 10 + d > 18446744073709551615 then Inl ErrRange
      else ParseUint_loop cs (n * 10 + d))"
    unfolding d_def using c
    by (simp only: ParseUint_loop_Cons_numeral if_True if_False simp_thms)
  have val: "digits_val (c # cs) n = digits_val cs (n * 10 + d)"
    unfolding d_def by (rule digits_val_Cons)
  have ge: "n * 10 + d \<le> digits_val (c # cs) n"
    unfolding val by (rule digits_val_ge)
  show ?case
  proof (cases "n \<ge> 1844674407370955162")
    case True
    then have "\<not> digits_val (c # cs) n \<le> 18446744073709551615"
      using ge by linarith
    then show ?thesis
      using True by (simp add: step del: ParseUint_loop.simps)
  next
    case False
    show ?thesis
    proof (cases "n * 10 + d > 18446744073709551615")
      case True
      then have "\<not> digits_val (c # cs) n \<le> 18446744073709551615"
        using ge by linarith
      then show ?thesis
        using False True by (simp add: step del: ParseUint_loop.simps)
    next
      case n1: False
      then have "n * 10 + d \<le> 18446744073709551615" by linarith
      from Cons.IH[OF cs this] show ?thesis
        using False n1 by (simp add: step val del: ParseUint_loop.simps)
    qed
  qed
qed

lemma ParseUint_loop_Inr:
  "ParseUint_loop ds n = Inr m \<Longrightarrow> list_all isDigit ds \<and> m = digits_val ds n"
proof (induction ds arbitrary: n)
  case Nil
  then show ?case by (simp add: digits_val_Nil)
next
  case (Cons c cs)
  define d where "d = c - 48"
  have step: "ParseUint_loop (c # cs) n =
     (if \<not> isDigit c then Inl ErrSyntax
      else if n \<ge> 1844674407370955162 then Inl ErrRange
      else if n * 10 + d > 18446744073709551615 then Inl ErrRange
      else ParseUint_loop cs (n * 10 + d))"
    unfolding d_def by (rule ParseUint_loop_Cons_numeral)
  have val: "digits_val (c # cs) n = digits_val cs (n * 10 + d)"
    unfolding d_def by (rule digits_val_Cons)
  from Cons.prems have c: "isDigit c" and r: "ParseUint_loop cs (n * 10 + d) = Inr m"
    unfolding step by (auto split: if_splits)
  from Cons.IH[OF r] c show ?case
    by (simp add: val)
qed

lemma digits_val_decimal: "digits_val (decimal n) 0 = n"
proof (induction n rule: decimal.induct)
  case (1 n)
  show ?case
  proof (cases "n < 10")
    case True
    then show ?thesis
      by (subst decimal.simps) (simp add: digits_val_Cons digits_val_Nil)
  next
    case False
    then have "digits_val (decimal (n div 10)) 0 = n div 10"
      using 1 by simp
    then show ?thesis
      using False
      by (subst decimal.simps)
         (simp add: digits_val_append digits_val_Cons digits_val_Nil)
  qed
qed

lemma Atoi_decimal_range:
  assumes "2 ^ (IntSize - 1) \<le> n"
  shows "Atoi (decimal n) = (2 ^ 63 - 1, Some (NumError_Range (decimal n)))"
proof -
  have n: "2 ^ 63 \<le> n" using assms by (simp add: IntSize_def)
  have p: "ParseUint (decimal n) = (if n \<le> 18446744073709551615 then Inr n else Inl ErrRange)"
    using ParseUint_loop_digits[OF decimal_digits, of 0 n]
    by (simp add: ParseUint_def decimal_not_Nil digits_val_decimal)
  have "isDigit (hd (decimal n))"
    using decimal_digits[of n] decimal_not_Nil[of n] by (cases "decimal n") auto
  then have "hd (decimal n) \<noteq> 43" "hd (decimal n) \<noteq> 45"
    by (auto simp add: isDigit_def)
  then show ?thesis
    using p n by (simp add: Atoi_def decimal_not_Nil IntSize_def)
qed

lemma Atoi_decimal:
  assumes "n < 2 ^ (IntSize - 1)"
  shows "Atoi (decimal n) = (int n, None)"
proof -
  have n: "n < 2 ^ 63" using assms by (simp add: IntSize_def)
  then have "n < 2 ^ 64" by simp
  then have p: "ParseUint (decimal n) = Inr n"
    by (simp add: ParseUint_def decimal_not_Nil ParseUint_loop_decimal)
  have "isDigit (hd (decimal n))"
    using decimal_digits[of n] decimal_not_Nil[of n] by (cases "decimal n") auto
  then have "hd (decimal n) \<noteq> 43" "hd (decimal n) \<noteq> 45"
    by (auto simp add: isDigit_def)
  then show ?thesis
    using p n by (simp add: Atoi_def decimal_not_Nil IntSize_def)
qed

lemma scanVariable_loop_decimal:
  "\<not> isDigit c \<Longrightarrow> c \<noteq> eof \<Longrightarrow>
   scanVariable_loop \<lparr>input = decimal n @ c # cs, lastRune = l\<rparr> buf =
     ((VARIABLE, buf @ decimal n, None), \<lparr>input = c # cs, lastRune = None\<rparr>)"
  by (rule scanVariable_loop_run[OF decimal_digits])

lemma TrimPrefix_x: "TrimPrefix (120 # ds) [120] = ds"
  by (simp add: TrimPrefix_def)

lemma parseIncr_incr_src:
  assumes "n < 2 ^ (IntSize - 1)"
  shows "parseIncr \<lparr>scanner = \<lparr>input = incr_src n dec @ rest, lastRune = l\<rparr>,
                    buf_tok = t, buf_lit = b, buf_n = 0\<rparr> =
           ((Some \<lparr>Variable = int n, Decrement = dec\<rparr>, None),
            \<lparr>scanner = \<lparr>input = rest, lastRune = Some 49\<rparr>,
             buf_tok = CONSTANT, buf_lit = runes ''1'', buf_n = 0\<rparr>)"
  by (cases dec)
     (simp_all add: incr_src_def parseIncr_stages incr_assign_def incr_right_def incr_sign_def
       incr_constant_def scan_eval scanVariable_loop_decimal TrimPrefix_x
       Atoi_decimal[OF assms])

lemma scanIgnoreWhitespace_incr_src:
  "scanIgnoreWhitespace (NewParser (incr_src n dec @ rest)) =
     ((VARIABLE, 120 # decimal n, None),
      \<lparr>scanner = \<lparr>input = drop (Suc (length (decimal n))) (incr_src n dec @ rest),
                   lastRune = None\<rparr>,
       buf_tok = VARIABLE, buf_lit = 120 # decimal n, buf_n = 0\<rparr>)"
  by (cases dec) (simp_all add: incr_src_def scan_eval scanVariable_loop_decimal)

section \<open>Parse after a variable\<close>

lemma scan_buffer:
  "scan p = ((tok, lit, err), p1) \<Longrightarrow> buf_tok p1 = tok \<and> buf_lit p1 = lit \<and> buf_n p1 = 0"
  by (auto simp add: scan_def split: if_splits prod.splits)

lemma scanIgnoreWhitespace_buffer:
  "scanIgnoreWhitespace p = ((tok, lit, err), p1) \<Longrightarrow>
   buf_tok p1 = tok \<and> buf_lit p1 = lit \<and> buf_n p1 = 0"
  by (auto simp add: scanIgnoreWhitespace_def split: if_splits prod.splits dest: scan_buffer)

lemma scanIgnoreWhitespace_unscan:
  assumes "scanIgnoreWhitespace p = ((tok, lit, err), p1)" and "tok \<noteq> WS"
  shows "scanIgnoreWhitespace (unscan p1) = ((tok, lit, None), p1)"
  using scanIgnoreWhitespace_buffer[OF assms(1)] assms(2)
  by (simp add: scanIgnoreWhitespace_def scan_def unscan_def)

lemma parseIncr_unscan:
  assumes "scanIgnoreWhitespace p = ((tok, lit, None), p1)" and "tok \<noteq> WS"
  shows "parseIncr (unscan p1) = parseIncr p"
  by (simp add: parseIncr_stages scanIgnoreWhitespace_unscan[OF assms] assms(1))

text \<open>
  The lookahead: after \<open>unscan\<close> the parser reads the same token again, so
  \<open>parseIncr\<close> behind the lookahead is \<open>parseIncr\<close> at the start.
\<close>

lemma Parse_VARIABLE:
  assumes "scanIgnoreWhitespace p = ((VARIABLE, lit, None), p1)"
  shows "Parse p =
     (case parseIncr p of
        ((incExpr, Some e), p2) \<Rightarrow> ((None, Some e), p2)
      | ((incExpr, None), p2) \<Rightarrow>
     (case scanIgnoreWhitespace p2 of ((tok, lit, err), p3) \<Rightarrow>
     (if tok = ILLEGAL \<or> tok = EOF then
        ((Some (Expr INCR_EXPR incExpr None None), None), p3)
      else
     (case err of
        Some e \<Rightarrow> ((None, Some (Errorf_err ''error tokenizing after ws: %s'' e)), p3)
      | None \<Rightarrow>
     (if tok = SEMICOLON then
        (case Parse p3 of
           ((ex2, Some e), p4) \<Rightarrow>
             ((None, Some (Errorf_err ''no valid expression after semicolon: %s'' e)), p4)
         | ((ex2, None), p4) \<Rightarrow>
             ((Some (Expr SEQ_EXPR None
                 (Some (new_SeqExpr (Some (Expr INCR_EXPR incExpr None None)) ex2)) None),
               None), p4))
      else ((Some (Expr INCR_EXPR incExpr None None), None), p3))))))"
proof -
  have u: "parseIncr (unscan p1) = parseIncr p"
    using parseIncr_unscan[OF assms] by simp
  obtain incExpr e p2 where r: "parseIncr p = ((incExpr, e), p2)"
    by (metis surj_pair)
  show ?thesis
    by (subst Parse.simps) (cases e; simp add: assms u r)
qed

lemma scanIgnoreWhitespace_Nil:
  "input (scanner p) = [] \<Longrightarrow> buf_n p = 0 \<Longrightarrow>
   fst (fst (scanIgnoreWhitespace p)) = ILLEGAL"
  by (simp add: scanIgnoreWhitespace_def scan_def Scan_Nil scanError_def)

lemma Parse_incr_src_Nil:
  assumes "n < 2 ^ (IntSize - 1)"
  shows "fst (Parse (NewParser (incr_src n dec))) = (Some (incr_node n dec), None)"
proof -
  let ?p5 = "\<lparr>scanner = \<lparr>input = [], lastRune = Some 49\<rparr>,
              buf_tok = CONSTANT, buf_lit = runes ''1'', buf_n = 0\<rparr>"
  have s: "scanIgnoreWhitespace (NewParser (incr_src n dec)) =
             ((VARIABLE, 120 # decimal n, None),
              \<lparr>scanner = \<lparr>input = drop (Suc (length (decimal n))) (incr_src n dec),
                           lastRune = None\<rparr>,
               buf_tok = VARIABLE, buf_lit = 120 # decimal n, buf_n = 0\<rparr>)"
    using scanIgnoreWhitespace_incr_src[of n dec "[]"] by simp
  have i: "parseIncr (NewParser (incr_src n dec)) =
             ((Some \<lparr>Variable = int n, Decrement = dec\<rparr>, None), ?p5)"
    using parseIncr_incr_src[OF assms, of dec "[]" None ILLEGAL "[]"]
    by (simp add: NewParser_def NewScanner_def)
  obtain tok lit err p3 where e: "scanIgnoreWhitespace ?p5 = ((tok, lit, err), p3)"
    by (metis surj_pair)
  have "tok = ILLEGAL"
    using scanIgnoreWhitespace_Nil[of ?p5] e by simp
  then show ?thesis
    by (simp add: Parse_VARIABLE[OF s] i e incr_node_def)
qed

lemma decimal_42: "decimal 42 = runes ''42''"
  by (simp add: decimal.simps runes_def)

lemma decimal_big: "decimal 9223372036854775809 = runes ''9223372036854775809''"
  by (simp add: decimal.simps runes_def)

lemma Parse_incr_src_range:
  assumes "2 ^ (IntSize - 1) \<le> n"
  shows "fst (Parse (NewParser (incr_src n dec @ rest))) =
           (None, Some (Errorf_err ''error parsing variable number: %s''
                          (NumError_Range (decimal n))))"
proof -
  have i: "fst (parseIncr (NewParser (incr_src n dec @ rest))) =
           (None, Some (Errorf_err ''error parsing variable number: %s''
                          (NumError_Range (decimal n))))"
    by (simp add: parseIncr_stages scanIgnoreWhitespace_incr_src TrimPrefix_def runes_def
          Atoi_decimal_range[OF assms])
  obtain r q where "parseIncr (NewParser (incr_src n dec @ rest)) = (r, q)"
    by (metis surj_pair)
  with i show ?thesis
    by (simp add: Parse_VARIABLE[OF scanIgnoreWhitespace_incr_src])
qed

section \<open>No error without ILLEGAL\<close>








section \<open>Parse after an increment\<close>




section \<open>Increments with two indices\<close>

lemma incr_constant_Some:
  "fst (fst (incr_constant v d q)) = Some ie \<Longrightarrow> Variable ie = v"
  by (auto simp add: incr_constant_def split: prod.splits option.splits if_splits)

lemma incr_sign_Some:
  "fst (fst (incr_sign v q)) = Some ie \<Longrightarrow> Variable ie = v"
  by (auto simp add: incr_sign_def split: prod.splits option.splits if_splits
      dest: incr_constant_Some)

lemma incr_right_Some:
  assumes "fst (fst (incr_right v p2)) = Some ie"
  shows "\<exists>lit3 p3. scanIgnoreWhitespace p2 = ((VARIABLE, lit3, None), p3) \<and>
           Atoi (TrimPrefix lit3 (runes ''x'')) = (v, None) \<and> Variable ie = v"
  using assms
  by (auto simp add: incr_right_def split: prod.splits option.splits if_splits
      dest: incr_sign_Some)

lemma incr_assign_Some:
  assumes "fst (fst (incr_assign v p1)) = Some ie"
  shows "\<exists>lit2 p2 lit3 p3. scanIgnoreWhitespace p1 = ((ASSIGN, lit2, None), p2) \<and>
           scanIgnoreWhitespace p2 = ((VARIABLE, lit3, None), p3) \<and>
           Atoi (TrimPrefix lit3 (runes ''x'')) = (v, None) \<and> Variable ie = v"
  using assms
  by (auto simp add: incr_assign_def split: prod.splits option.splits if_splits
      dest: incr_right_Some)

lemma Atoi_var_index:
  assumes "Atoi (TrimPrefix lit (runes ''x'')) = (v, None)"
  shows "var_index lit = Some v"
proof -
  let ?s = "TrimPrefix lit (runes ''x'')"
  let ?ds = "if hd ?s = 43 \<or> hd ?s = 45 then tl ?s else ?s"
  have s: "?s \<noteq> []"
    using assms by (auto simp add: Atoi_def)
  obtain un where un: "ParseUint ?ds = Inr un"
    and v: "v = (if hd ?s = 45 then - int un else int un)"
    using assms s
    by (auto simp add: Atoi_def Let_def split: sum.splits NumErr.splits if_splits)
  have ds: "?ds \<noteq> []" and l: "ParseUint_loop ?ds 0 = Inr un"
    using un by (auto simp add: ParseUint_def split: if_splits)
  from ParseUint_loop_Inr[OF l] have "list_all isDigit ?ds" "un = digits_val ?ds 0"
    by simp_all
  then show ?thesis
    using s ds v by (simp add: var_index_def Let_def)
qed

lemma parseIncr_Some:
  assumes "fst (fst (parseIncr p)) = Some ie"
  shows "incr_indices p = Some (Some (Variable ie), Some (Variable ie))"
proof -
  obtain lit1 p1 where s1: "scanIgnoreWhitespace p = ((VARIABLE, lit1, None), p1)"
    and a1: "\<exists>v. Atoi (TrimPrefix lit1 (runes ''x'')) = (v, None) \<and>
               fst (fst (incr_assign v p1)) = Some ie"
    using assms
    by (auto simp add: parseIncr_stages split: prod.splits option.splits if_splits)
  then obtain v where v: "Atoi (TrimPrefix lit1 (runes ''x'')) = (v, None)"
    and t: "fst (fst (incr_assign v p1)) = Some ie"
    by blast
  from incr_assign_Some[OF t] obtain lit2 p2 lit3 p3 where
    s2: "scanIgnoreWhitespace p1 = ((ASSIGN, lit2, None), p2)" and
    s3: "scanIgnoreWhitespace p2 = ((VARIABLE, lit3, None), p3)" and
    a3: "Atoi (TrimPrefix lit3 (runes ''x'')) = (v, None)" and e: "Variable ie = v"
    by blast
  show ?thesis
    by (simp add: incr_indices_def s1 s2 s3 Atoi_var_index[OF v] Atoi_var_index[OF a3] e)
qed

lemma parseIncr_result:
  "(\<exists>e. fst (parseIncr p) = (None, Some e)) \<or> (\<exists>ie. fst (parseIncr p) = (Some ie, None))"
  by (auto simp add: parseIncr_stages incr_assign_def incr_right_def incr_sign_def
        incr_constant_def split: prod.splits option.splits if_splits)

lemma parseIncr_differ:
  assumes "incr_indices p = Some (i, j)" and "i \<noteq> j"
  shows "(\<exists>e. fst (parseIncr p) = (None, Some e))
         \<and> (\<exists>lit p1. scanIgnoreWhitespace p = ((VARIABLE, lit, None), p1))"
proof -
  have tok: "\<exists>lit p1. scanIgnoreWhitespace p = ((VARIABLE, lit, None), p1)"
    using assms(1)
    by (auto simp add: incr_indices_def split: prod.splits if_splits)
  have "\<not> (\<exists>ie. fst (parseIncr p) = (Some ie, None))"
  proof
    assume "\<exists>ie. fst (parseIncr p) = (Some ie, None)"
    then obtain ie where "fst (fst (parseIncr p)) = Some ie" by auto
    from parseIncr_Some[OF this] assms show False by simp
  qed
  with parseIncr_result[of p] tok show ?thesis by blast
qed

lemma Parse_no_VARIABLE:
  assumes "scanIgnoreWhitespace p = ((tok, lit, err), p1)"
      and "err \<noteq> None \<or> tok \<noteq> VARIABLE"
      and "fst (fst (Parse p)) = Some ex"
  shows "first_increment ex = None"
proof (cases err)
  case (Some e)
  with assms(1,3) show ?thesis
    by (subst (asm) Parse.simps) simp
next
  case None
  with assms(2) have t: "tok \<noteq> VARIABLE" by simp
  obtain tok2 lit2 err2 p3 where s2: "scanIgnoreWhitespace p1 = ((tok2, lit2, err2), p3)"
    by (metis surj_pair)
  obtain ex2 e4 p4 where r: "Parse p3 = ((ex2, e4), p4)"
    by (metis surj_pair)
  from assms(3) show ?thesis
    by (subst (asm) Parse.simps)
       (auto simp add: assms(1) None t s2 r first_increment_def split: if_splits option.splits)
qed

lemma Parse_first_increment:
  assumes "fst (fst (Parse p)) = Some ex" and "first_increment ex = Some ie"
  shows "fst (fst (parseIncr p)) = Some ie"
proof -
  obtain tok lit err p1 where s: "scanIgnoreWhitespace p = ((tok, lit, err), p1)"
    by (metis surj_pair)
  have "\<not> (err \<noteq> None \<or> tok \<noteq> VARIABLE)"
  proof
    assume a: "err \<noteq> None \<or> tok \<noteq> VARIABLE"
    from Parse_no_VARIABLE[OF s a assms(1)] assms(2) show False by simp
  qed
  then have s': "scanIgnoreWhitespace p = ((VARIABLE, lit, None), p1)"
    using s by simp
  obtain inc e p2 where i: "parseIncr p = ((inc, e), p2)"
    by (metis surj_pair)
  obtain tok2 lit2 err2 p3 where s2: "scanIgnoreWhitespace p2 = ((tok2, lit2, err2), p3)"
    by (metis surj_pair)
  obtain ex2 e4 p4 where r: "Parse p3 = ((ex2, e4), p4)"
    by (metis surj_pair)
  have "inc = Some ie"
    using assms
    by (auto simp add: Parse_VARIABLE[OF s'] i s2 r first_increment_def
          split: if_splits option.splits)
  then show ?thesis by (simp add: i)
qed

section \<open>Claims about the scanner\<close>

text \<open>
  C3. At the end of the stream \<open>Scan\<close> is claimed to return the EOF token with an empty
  literal and no error. The code returns ILLEGAL with the wrapped read error: the guard
  on \<open>err\<close> comes before the \<open>switch\<close>, so \<open>case eof\<close> is reached only by a NUL rune
  in the input. The theorem evaluates both.
\<close>

theorem Scan_end_of_stream:
  "Scan (NewScanner []) =
     ((ILLEGAL, [], Some (Errorf_err ''error reading next character: %s'' io_EOF)),
      NewScanner [])
   \<and> fst (Scan (NewScanner [eof])) = (EOF, [], None)"
  by (simp add: scan_eval)

lemma scanString_loop_mismatch:
  "\<not> prefix str (input s) \<Longrightarrow>
   \<exists>e. fst (scanString_loop s expectedToken str buf) = (ILLEGAL, [], Some e)"
proof (induction str arbitrary: s buf)
  case Nil
  then show ?case by simp
next
  case (Cons strCh str)
  show ?case
  proof (cases "input s")
    case Nil
    then show ?thesis by (simp add: read_Nil scanError_def)
  next
    case (Cons ch cs)
    show ?thesis
    proof (cases "ch = strCh")
      case True
      with Cons Cons.prems have "\<not> prefix str cs" by simp
      then have "\<exists>e. fst (scanString_loop \<lparr>input = cs, lastRune = Some ch\<rparr>
                    expectedToken str (buf @ [ch])) = (ILLEGAL, [], Some e)"
        using Cons.IH[of "\<lparr>input = cs, lastRune = Some ch\<rparr>" "buf @ [ch]"] by simp
      with Cons True show ?thesis by (simp add: read_Cons)
    next
      case False
      with Cons show ?thesis by (simp add: read_Cons scanError_def)
    qed
  qed
qed

lemma Scan_scanString:
  assumes "(tok, kw) \<in> set multi_rune_tokens" and "input s = hd kw # cs"
  shows "Scan s = scanString \<lparr>input = cs, lastRune = Some (hd kw)\<rparr> tok kw"
  using assms unfolding multi_rune_tokens_def
  by (auto simp add: Scan_def read_Cons isWhitespace_def eof_def runes_def)

text \<open>
  C6. An input that starts with the first rune of \<open>:=\<close>, \<open>!=\<close>, \<open>WHILE\<close>, \<open>DO\<close> or
  \<open>END\<close> but does not go on with the whole literal (it differs at some position, or
  ends before) makes \<open>Scan\<close> return ILLEGAL with an empty literal and an error, never
  the token of the literal.
\<close>

theorem Scan_keyword_mismatch:
  assumes "(tok, kw) \<in> set multi_rune_tokens"
      and "input s = hd kw # cs"
      and "\<not> prefix kw (input s)"
  shows "\<exists>e. fst (Scan s) = (ILLEGAL, [], Some e)"
proof -
  have "\<not> prefix kw (input \<lparr>input = hd kw # cs, lastRune = None\<rparr>)"
    using assms(2,3) by simp
  then have "\<exists>e. fst (scanString \<lparr>input = cs, lastRune = Some (hd kw)\<rparr> tok kw) =
               (ILLEGAL, [], Some e)"
    using scanString_loop_mismatch[of kw "\<lparr>input = hd kw # cs, lastRune = None\<rparr>" tok "[]"]
    by (simp add: scanString_def unread_Some)
  then show ?thesis
    by (simp only: Scan_scanString[OF assms(1,2)])
qed

theorem Scan_keyword_mismatch_witness:
  "(ASSIGN, runes '':='') \<in> set multi_rune_tokens
   \<and> input (NewScanner (runes '':!'')) = hd (runes '':='') # runes ''!''
   \<and> \<not> prefix (runes '':='') (input (NewScanner (runes '':!'')))
   \<and> (\<exists>e. fst (Scan (NewScanner (runes '':!''))) = (ILLEGAL, [], Some e))"
  using Scan_keyword_mismatch[of ASSIGN "runes '':=''" "NewScanner (runes '':!'')" "runes ''!''"]
  by (simp add: multi_rune_tokens_def runes_def NewScanner_def)

text \<open>
  C7. On an input that starts with whitespace \<open>Scan\<close> returns one WS token whose
  literal is the maximal run of whitespace. As amended: the scan stops at the end of the
  input or at the first rune that is not whitespace, and leaves that rune unread unless
  it is the NUL rune, the scanner's \<open>eof\<close> marker, which it consumes.
\<close>

theorem Scan_whitespace_run:
  assumes "input s = ws @ rest" and "ws \<noteq> []" and "list_all isWhitespace ws"
      and "rest = [] \<or> \<not> isWhitespace (hd rest)"
  shows "fst (Scan s) = (WS, ws, None) \<and>
         input (snd (Scan s)) = (if rest \<noteq> [] \<and> hd rest = eof then tl rest else rest)"
proof -
  obtain w ws' where ws: "ws = w # ws'"
    using assms(2) by (cases ws) auto
  have w: "isWhitespace w" "list_all isWhitespace ws'"
    using assms(3) ws by auto
  have "Scan s = scanWhitespace_loop \<lparr>input = ws' @ rest, lastRune = Some w\<rparr> [w]"
    using assms(1) ws w(1)
    by (simp add: Scan_def read_Cons unread_Some scanWhitespace_def)
  then show ?thesis
    using scanWhitespace_loop_run[OF w(2) assms(4), of "Some w" "[w]"] ws
    by (cases rest) auto
qed

theorem Scan_whitespace_run_witness:
  "input (NewScanner (runes '' '' @ [9, 10] @ runes ''x1'')) = (runes '' '' @ [9, 10]) @ runes ''x1''
   \<and> list_all isWhitespace (runes '' '' @ [9, 10])
   \<and> \<not> isWhitespace (hd (runes ''x1''))
   \<and> fst (Scan (NewScanner (runes '' '' @ [9, 10] @ runes ''x1''))) = (WS, runes '' '' @ [9, 10], None)
   \<and> input (snd (Scan (NewScanner (runes '' '' @ [9, 10] @ runes ''x1'')))) = runes ''x1''"
  using Scan_whitespace_run[of "NewScanner (runes '' '' @ [9, 10] @ runes ''x1'')"
      "runes '' '' @ [9, 10]" "runes ''x1''"]
  by (simp add: NewScanner_def runes_def isWhitespace_def eof_def)

text \<open>
  The claim as stated fails on a NUL rune after the run: it is not whitespace, and it is
  consumed.
\<close>

theorem Scan_whitespace_NUL_counterexample:
  "isWhitespace (hd (runes '' '' @ eof # runes ''+''))
   \<and> \<not> isWhitespace eof
   \<and> fst (Scan (NewScanner (runes '' '' @ eof # runes ''+''))) = (WS, runes '' '', None)
   \<and> input (snd (Scan (NewScanner (runes '' '' @ eof # runes ''+'')))) = runes ''+''
   \<and> input (snd (Scan (NewScanner (runes '' '' @ eof # runes ''+'')))) \<noteq> eof # runes ''+''"
  by (simp add: scan_eval)

section \<open>Claims about the parser\<close>

text \<open>
  C1. The text \<^verbatim>\<open>x{n} := x{n} + 1\<close> parses to the increment node of variable \<open>n\<close>
  with \<open>Decrement = False\<close>, and with \<^verbatim>\<open>-\<close> in place of \<^verbatim>\<open>+\<close> to the node with
  \<open>Decrement = True\<close>. As amended: for every \<open>n\<close> below \<open>2 ^ (IntSize - 1)\<close>, the
  range of the Go \<^verbatim>\<open>int\<close> that \<^verbatim>\<open>strconv.Atoi\<close> returns; for every other \<open>n\<close> both
  texts make \<open>Atoi\<close> report a range error, and \<open>Parse\<close> returns that error, wrapped, and
  no node.
\<close>

theorem Parse_increment:
  "(n < 2 ^ (IntSize - 1) \<longrightarrow>
      fst (Parse (NewParser (runes ''x'' @ decimal n @ runes '' := x'' @ decimal n
                              @ runes '' + 1''))) =
        (Some (Expr INCR_EXPR (Some \<lparr>Variable = int n, Decrement = False\<rparr>) None None),
         None)
      \<and> fst (Parse (NewParser (runes ''x'' @ decimal n @ runes '' := x'' @ decimal n
                              @ runes '' - 1''))) =
        (Some (Expr INCR_EXPR (Some \<lparr>Variable = int n, Decrement = True\<rparr>) None None),
         None))
   \<and> (2 ^ (IntSize - 1) \<le> n \<longrightarrow>
      fst (Parse (NewParser (runes ''x'' @ decimal n @ runes '' := x'' @ decimal n
                              @ runes '' + 1''))) =
        (None, Some (Errorf_err ''error parsing variable number: %s''
                       (NumError_Range (decimal n))))
      \<and> fst (Parse (NewParser (runes ''x'' @ decimal n @ runes '' := x'' @ decimal n
                              @ runes '' - 1''))) =
        (None, Some (Errorf_err ''error parsing variable number: %s''
                       (NumError_Range (decimal n)))))"
proof (intro conjI impI)
  assume n: "n < 2 ^ (IntSize - 1)"
  show "fst (Parse (NewParser (runes ''x'' @ decimal n @ runes '' := x'' @ decimal n
                              @ runes '' + 1''))) =
        (Some (Expr INCR_EXPR (Some \<lparr>Variable = int n, Decrement = False\<rparr>) None None),
         None)"
    using Parse_incr_src_Nil[OF n, of False] by (simp add: incr_src_def incr_node_def)
  show "fst (Parse (NewParser (runes ''x'' @ decimal n @ runes '' := x'' @ decimal n
                              @ runes '' - 1''))) =
        (Some (Expr INCR_EXPR (Some \<lparr>Variable = int n, Decrement = True\<rparr>) None None),
         None)"
    using Parse_incr_src_Nil[OF n, of True] by (simp add: incr_src_def incr_node_def)
next
  assume n: "2 ^ (IntSize - 1) \<le> n"
  show "fst (Parse (NewParser (runes ''x'' @ decimal n @ runes '' := x'' @ decimal n
                              @ runes '' + 1''))) =
        (None, Some (Errorf_err ''error parsing variable number: %s''
                       (NumError_Range (decimal n))))"
    using Parse_incr_src_range[OF n, of False "[]"] by (simp add: incr_src_def)
  show "fst (Parse (NewParser (runes ''x'' @ decimal n @ runes '' := x'' @ decimal n
                              @ runes '' - 1''))) =
        (None, Some (Errorf_err ''error parsing variable number: %s''
                       (NumError_Range (decimal n))))"
    using Parse_incr_src_range[OF n, of True "[]"] by (simp add: incr_src_def)
qed

theorem Parse_increment_witness:
  "(42::nat) < 2 ^ (IntSize - 1)
   \<and> fst (Parse (NewParser (runes ''x42 := x42 + 1''))) =
       (Some (Expr INCR_EXPR (Some \<lparr>Variable = 42, Decrement = False\<rparr>) None None), None)
   \<and> fst (Parse (NewParser (runes ''x42 := x42 - 1''))) =
       (Some (Expr INCR_EXPR (Some \<lparr>Variable = 42, Decrement = True\<rparr>) None None), None)
   \<and> (2::nat) ^ (IntSize - 1) \<le> 9223372036854775809
   \<and> fst (Parse (NewParser (runes ''x9223372036854775809 := x9223372036854775809 + 1''))) =
       (None, Some (Errorf_err ''error parsing variable number: %s''
                      (NumError_Range (runes ''9223372036854775809''))))
   \<and> fst (Parse (NewParser (runes ''x9223372036854775809 := x9223372036854775809 - 1''))) =
       (None, Some (Errorf_err ''error parsing variable number: %s''
                      (NumError_Range (runes ''9223372036854775809''))))"
  using Parse_increment[of 42] Parse_increment[of 9223372036854775809]
  by (simp add: decimal_42 decimal_big IntSize_def runes_def)

text \<open>
  The claim as stated, for every natural number, fails at \<open>2 ^ 63\<close>: \<open>Atoi\<close> reports a
  range error and \<open>Parse\<close> returns it.
\<close>

theorem Parse_increment_overflow_counterexample:
  "decimal 9223372036854775808 = runes ''9223372036854775808''
   \<and> fst (Parse (NewParser (runes ''x9223372036854775808 := x9223372036854775808 + 1''))) =
       (None, Some (Errorf_err ''error parsing variable number: %s''
                     (NumError_Range (runes ''9223372036854775808''))))"
proof
  show "decimal 9223372036854775808 = runes ''9223372036854775808''"
    by (simp add: decimal.simps runes_def)
  show "fst (Parse (NewParser (runes ''x9223372036854775808 := x9223372036854775808 + 1''))) =
       (None, Some (Errorf_err ''error parsing variable number: %s''
                     (NumError_Range (runes ''9223372036854775808''))))"
    by (subst Parse.simps) (simp add: parse_eval)
qed

text \<open>
  C2. Whenever the variable index left of \<open>:=\<close> differs from the one right of it (as
  numbers of any size, or one of them is missing), \<open>parseIncr\<close> returns an error and no
  node, and \<open>Parse\<close> returns the same error and no tree. Whenever \<open>parseIncr\<close> returns
  an increment node, and whenever the first statement of the tree that \<open>Parse\<close> returns
  is an increment node, the two indices are equal, and are the node's variable. The
  indices are compared as numbers: \<^verbatim>\<open>x7\<close> and \<^verbatim>\<open>x07\<close> have the same.
\<close>

theorem parseIncr_same_variable:
  "(incr_indices p = Some (i, j) \<longrightarrow> i \<noteq> j \<longrightarrow>
      (\<exists>e. fst (parseIncr p) = (None, Some e) \<and> fst (Parse p) = (None, Some e)))
   \<and> (fst (fst (parseIncr p)) = Some ie \<longrightarrow>
        incr_indices p = Some (Some (Variable ie), Some (Variable ie)))
   \<and> (fst (fst (Parse p)) = Some ex \<longrightarrow> first_increment ex = Some ie' \<longrightarrow>
        incr_indices p = Some (Some (Variable ie'), Some (Variable ie')))"
proof (intro conjI impI)
  assume ij: "incr_indices p = Some (i, j)" "i \<noteq> j"
  from parseIncr_differ[OF ij] obtain e lit p1 where
    i: "fst (parseIncr p) = (None, Some e)"
    and s: "scanIgnoreWhitespace p = ((VARIABLE, lit, None), p1)"
    by blast
  obtain q where "parseIncr p = ((None, Some e), q)"
    using i by (cases "parseIncr p") auto
  then have "fst (Parse p) = (None, Some e)"
    by (simp add: Parse_VARIABLE[OF s])
  with i show "\<exists>e. fst (parseIncr p) = (None, Some e) \<and> fst (Parse p) = (None, Some e)"
    by blast
next
  assume "fst (fst (parseIncr p)) = Some ie"
  then show "incr_indices p = Some (Some (Variable ie), Some (Variable ie))"
    by (rule parseIncr_Some)
next
  assume "fst (fst (Parse p)) = Some ex" "first_increment ex = Some ie'"
  then have "fst (fst (parseIncr p)) = Some ie'"
    by (rule Parse_first_increment)
  then show "incr_indices p = Some (Some (Variable ie'), Some (Variable ie'))"
    by (rule parseIncr_Some)
qed


theorem parseIncr_same_variable_witness:
  "incr_indices (NewParser (runes ''x1 := x2 + 1'')) = Some (Some 1, Some 2)
   \<and> (\<exists>e. fst (parseIncr (NewParser (runes ''x1 := x2 + 1''))) = (None, Some e)
          \<and> fst (Parse (NewParser (runes ''x1 := x2 + 1''))) = (None, Some e))
   \<and> incr_indices (NewParser (runes ''x1 := x9223372036854775808 + 1'')) =
        Some (Some 1, Some 9223372036854775808)
   \<and> (\<exists>e. fst (parseIncr (NewParser (runes ''x1 := x9223372036854775808 + 1''))) =
            (None, Some e)
          \<and> fst (Parse (NewParser (runes ''x1 := x9223372036854775808 + 1''))) =
            (None, Some e))
   \<and> fst (fst (parseIncr (NewParser (runes ''x7 := x07 - 1'')))) =
        Some \<lparr>Variable = 7, Decrement = True\<rparr>
   \<and> incr_indices (NewParser (runes ''x7 := x07 - 1'')) = Some (Some 7, Some 7)
   \<and> fst (fst (Parse (NewParser (runes ''x7 := x07 - 1 ; x0 := x0 + 1'')))) =
        Some (Expr SEQ_EXPR None
          (Some (new_SeqExpr
             (Some (Expr INCR_EXPR (Some \<lparr>Variable = 7, Decrement = True\<rparr>) None None))
             (Some (Expr INCR_EXPR (Some \<lparr>Variable = 0, Decrement = False\<rparr>) None None))))
          None)
   \<and> incr_indices (NewParser (runes ''x7 := x07 - 1 ; x0 := x0 + 1'')) =
        Some (Some 7, Some 7)"
proof -
  have a: "incr_indices (NewParser (runes ''x1 := x2 + 1'')) = Some (Some 1, Some 2)"
    by (simp add: incr_indices_def var_index_def digits_val_def parse_eval)
  have b: "incr_indices (NewParser (runes ''x1 := x9223372036854775808 + 1'')) =
        Some (Some 1, Some 9223372036854775808)"
    by (simp add: incr_indices_def var_index_def digits_val_def parse_eval)
  have c: "fst (fst (parseIncr (NewParser (runes ''x7 := x07 - 1'')))) =
        Some \<lparr>Variable = 7, Decrement = True\<rparr>"
    by (simp add: parse_eval)
  have d: "fst (fst (Parse (NewParser (runes ''x7 := x07 - 1 ; x0 := x0 + 1'')))) =
        Some (Expr SEQ_EXPR None
          (Some (new_SeqExpr
             (Some (Expr INCR_EXPR (Some \<lparr>Variable = 7, Decrement = True\<rparr>) None None))
             (Some (Expr INCR_EXPR (Some \<lparr>Variable = 0, Decrement = False\<rparr>) None None))))
          None)"
    apply (subst Parse.simps)
    apply (simp add: parse_eval)
    apply (subst Parse.simps)
    apply (simp add: parse_eval)
    done
  have f: "first_increment (Expr SEQ_EXPR None
          (Some (new_SeqExpr
             (Some (Expr INCR_EXPR (Some \<lparr>Variable = 7, Decrement = True\<rparr>) None None))
             (Some (Expr INCR_EXPR (Some \<lparr>Variable = 0, Decrement = False\<rparr>) None None))))
          None) = Some \<lparr>Variable = 7, Decrement = True\<rparr>"
    by (simp add: first_increment_def)
  show ?thesis
    using a b c d f
      parseIncr_same_variable[of "NewParser (runes ''x1 := x2 + 1'')" "Some 1" "Some 2"]
      parseIncr_same_variable[of "NewParser (runes ''x1 := x9223372036854775808 + 1'')"
        "Some 1" "Some 9223372036854775808"]
      parseIncr_same_variable[of "NewParser (runes ''x7 := x07 - 1'')" _ _
        "\<lparr>Variable = 7, Decrement = True\<rparr>"]
      parseIncr_same_variable[of "NewParser (runes ''x7 := x07 - 1 ; x0 := x0 + 1'')" _ _ _
        "Expr SEQ_EXPR None
          (Some (new_SeqExpr
             (Some (Expr INCR_EXPR (Some \<lparr>Variable = 7, Decrement = True\<rparr>) None None))
             (Some (Expr INCR_EXPR (Some \<lparr>Variable = 0, Decrement = False\<rparr>) None None))))
          None"
        "\<lparr>Variable = 7, Decrement = True\<rparr>"]
    by simp
qed






text \<open>
  C10. There are inputs whose first token is not a variable on which \<open>Parse\<close> returns a
  nil expression and a nil error: a program that starts with \<open>WHILE\<close> is one.
\<close>

theorem Parse_nil_nil:
  "fst (fst (scanIgnoreWhitespace (NewParser (runes ''WHILE x1 != 0 DO x1 := x1 - 1 END''))))
     = WHILE
   \<and> fst (Parse (NewParser (runes ''WHILE x1 != 0 DO x1 := x1 - 1 END''))) = (None, None)"
  by (subst Parse.simps) (simp add: parse_eval)

section \<open>The claim about the interpreter\<close>

text \<open>
  C8. Running an increment statement with the decrement flag set on an environment in
  which the variable is 0 returns an environment in which it is still 0 (and a
  decrement never leaves a negative value); with the flag unset the value grows by
  exactly 1. In both cases \<open>run\<close> returns.
\<close>

theorem run_Increment:
  "(lookup env v = 0 \<longrightarrow>
      (\<exists>env'. run (Increment v True) env = Some env' \<and> lookup env' v = 0))
   \<and> (\<exists>env'. run (Increment v False) env = Some env' \<and> lookup env' v = lookup env v + 1)
   \<and> (\<forall>env'. run (Increment v True) env = Some env' \<longrightarrow> 0 \<le> lookup env' v)"
  by (simp add: run.simps lookup_def)

theorem run_Increment_witness:
  "lookup Map.empty 0 = 0
   \<and> (\<exists>env'. run (Increment 0 True) Map.empty = Some env' \<and> lookup env' 0 = 0)
   \<and> (\<exists>env'. run (Increment 0 False) Map.empty = Some env' \<and> lookup env' 0 = 1)"
  using run_Increment[of Map.empty 0]
  by (simp add: lookup_def)

end
